theory Spec2Isabelle
  imports Complex_Main
begin

section \<open>Newick tokenizer (class Tokenizer)\<close>

text \<open>
  JavaScript strings are modelled as \<^typ>\<open>string\<close>, one \<^typ>\<open>char\<close> per code unit.
  The backslash is written \<^term>\<open>CHR 0x5C\<close>. A value that may be \<^verbatim>\<open>undefined\<close>
  (such as \<^verbatim>\<open>text[pos + 1]\<close> past the end of the text) is an option, \<^term>\<open>None\<close>
  standing for \<^verbatim>\<open>undefined\<close>. A \<^verbatim>\<open>throw\<close> is a value \<^term>\<open>Inl e\<close>.
\<close>

datatype error = InvalidEscape | TypeError

text \<open>
  An element of the token array: one of the numbers \<^verbatim>\<open>SEMICOLON\<close>, \<^verbatim>\<open>COMMA\<close>,
  \<^verbatim>\<open>PAR_LEFT\<close>, \<^verbatim>\<open>PAR_RIGHT\<close>, a label fragment, or \<^verbatim>\<open>undefined\<close>
  (which \<^verbatim>\<open>tokens.push(symbol)\<close> stores when the symbol is undefined, and which
  reading outside the array gives).
\<close>

datatype token = Num nat | Str string | Undef

definition SEMICOLON :: nat where "SEMICOLON = 0"
definition COMMA :: nat where "COMMA = 1"
definition PAR_LEFT :: nat where "PAR_LEFT = 2"
definition PAR_RIGHT :: nat where "PAR_RIGHT = 3"


definition reserved :: string where
  "reserved = ''(),;'' @ [CHR 0x5C]"

fun escape :: "string \<Rightarrow> string" where
  "escape [] = []"
| "escape (c # text) =
     (if c \<notin> set reserved then [c] else [CHR 0x5C, c]) @ escape text"

definition unescape :: "char option \<Rightarrow> bool \<Rightarrow> error + char option" where
  "unescape symbol strict =
     (if strict \<and> (case symbol of None \<Rightarrow> True | Some c \<Rightarrow> c \<notin> set reserved)
      then Inl InvalidEscape else Inr symbol)"

text \<open>
  The default branch of the switch: \<^verbatim>\<open>tokens[tokens.length - 1] += symbol\<close> when the last
  token is a string (adding \<^verbatim>\<open>undefined\<close> to a string appends the text "undefined"),
  \<^verbatim>\<open>tokens.push(symbol)\<close> otherwise.
\<close>

definition push_symbol :: "token list \<Rightarrow> char option \<Rightarrow> token list" where
  "push_symbol tokens symbol =
     (case (if tokens = [] then Undef else last tokens) of
        Str s \<Rightarrow> butlast tokens @
                 [Str (s @ (case symbol of Some c \<Rightarrow> [c] | None \<Rightarrow> ''undefined''))]
      | _ \<Rightarrow> tokens @ [case symbol of Some c \<Rightarrow> Str [c] | None \<Rightarrow> Undef])"

text \<open>
  The while loop of \<^verbatim>\<open>tokenize\<close>, on the text from \<^verbatim>\<open>pos\<close> on: the head of the
  list is \<^verbatim>\<open>text[pos]\<close>, the head of the rest is \<^verbatim>\<open>text[pos + 1]\<close>. The call of
  \<^verbatim>\<open>unescape\<close> passes no second argument, so \<^verbatim>\<open>strict\<close> is false.
\<close>

function tokenize_from :: "string \<Rightarrow> token list \<Rightarrow> error + token list" where
  "tokenize_from [] tokens = Inr tokens"
| "tokenize_from (c # rest) tokens =
     (if c = CHR '';'' then tokenize_from rest (tokens @ [Num SEMICOLON])
      else if c = CHR '','' then tokenize_from rest (tokens @ [Num COMMA])
      else if c = CHR ''('' then tokenize_from rest (tokens @ [Num PAR_LEFT])
      else if c = CHR '')'' then tokenize_from rest (tokens @ [Num PAR_RIGHT])
      else
        (case (if c = CHR 0x5C
               then unescape (case rest of [] \<Rightarrow> None | c' # _ \<Rightarrow> Some c') False
               else Inr (Some c)) of
           Inl e \<Rightarrow> Inl e
         | Inr symbol \<Rightarrow>
             tokenize_from (if c = CHR 0x5C then tl rest else rest)
               (push_symbol tokens symbol)))"
  by pat_completeness auto
termination
  by (relation "measure (\<lambda>(s, tokens). length s)") auto

definition tokenize :: "string \<Rightarrow> error + token list" where
  "tokenize text = tokenize_from text []"

section \<open>Tree nodes (class Tree)\<close>

text \<open>
  Nodes are objects with identity, linked in both directions, so the model is an explicit
  store: a node is an address, and each field is a function from addresses to values.
  A parent reference is \<^verbatim>\<open>null\<close> (what the constructor sets), \<^verbatim>\<open>undefined\<close> (what
  \<^verbatim>\<open>detach\<close> sets) or a node. The \<^verbatim>\<open>data\<close> field is \<^verbatim>\<open>null\<close> (\<^term>\<open>None\<close>) or a
  string. \<open>next_id\<close> is the first address not yet handed out by the constructor.
\<close>

datatype ref = Null | Undefined | Ref nat

record heap =
  data :: "nat \<Rightarrow> string option"
  children :: "nat \<Rightarrow> nat list"
  parent :: "nat \<Rightarrow> ref"
  next_id :: nat


text \<open>The constructor: \<^verbatim>\<open>this.parent = null; this.children = []\<close>.\<close>

definition new_node :: "string option \<Rightarrow> heap \<Rightarrow> nat \<times> heap" where
  "new_node d h =
     (next_id h,
      h\<lparr>data := (data h)(next_id h := d),
        children := (children h)(next_id h := []),
        parent := (parent h)(next_id h := Null),
        next_id := Suc (next_id h)\<rparr>)"

text \<open>\<^verbatim>\<open>Array.prototype.indexOf\<close>: the first index of the element, or \<open>-1\<close>.\<close>

fun indexOf :: "nat list \<Rightarrow> nat \<Rightarrow> int" where
  "indexOf [] x = - 1"
| "indexOf (y # ys) x =
     (if y = x then 0 else (let i = indexOf ys x in if i < 0 then - 1 else i + 1))"

text \<open>
  \<^verbatim>\<open>xs.splice(start, 0, x)\<close>: a negative start counts from the end, and the start is
  clamped to the bounds of the array. Positions are integers.
\<close>

definition splice_in :: "nat list \<Rightarrow> int \<Rightarrow> nat \<Rightarrow> nat list" where
  "splice_in xs start x =
     (let len = int (length xs);
          k = (if start < 0 then max (len + start) 0 else min start len)
      in take (nat k) xs @ [x] @ drop (nat k) xs)"

definition removeChild :: "heap \<Rightarrow> nat \<Rightarrow> nat \<Rightarrow> heap" where
  "removeChild h self elem =
     (let idx = indexOf (children h self) elem
      in if idx \<ge> 0
         then h\<lparr>children := (children h)
                  (self := take (nat idx) (children h self) @ drop (nat idx + 1) (children h self))\<rparr>
         else h)"

text \<open>
  The statement \<^verbatim>\<open>if (child.parent !== null) child.parent.removeChild(child)\<close> that opens
  \<^verbatim>\<open>append\<close>, \<^verbatim>\<open>prepend\<close> and \<^verbatim>\<open>insert\<close>. An undefined parent is not \<^verbatim>\<open>null\<close>, and
  calling a method on it is a TypeError.
\<close>

definition leave_parent :: "heap \<Rightarrow> nat \<Rightarrow> error + heap" where
  "leave_parent h child =
     (case parent h child of
        Null \<Rightarrow> Inr h
      | Undefined \<Rightarrow> Inl TypeError
      | Ref p \<Rightarrow> Inr (removeChild h p child))"



definition position :: "heap \<Rightarrow> nat \<Rightarrow> int" where
  "position h self =
     (case parent h self of Ref p \<Rightarrow> indexOf (children h p) self | _ \<Rightarrow> - 1)"

definition insert_child :: "heap \<Rightarrow> nat \<Rightarrow> nat \<Rightarrow> int \<Rightarrow> error + heap" where
  "insert_child h self child pos =
     (let pos1 = (if parent h child = Ref self \<and> position h child < pos then pos - 1 else pos)
      in case leave_parent h child of
           Inl e \<Rightarrow> Inl e
         | Inr h1 \<Rightarrow>
             Inr (h1\<lparr>children := (children h1)(self := splice_in (children h1 self) pos1 child),
                     parent := (parent h1)(child := Ref self)\<rparr>))"

definition detach :: "heap \<Rightarrow> nat \<Rightarrow> heap" where
  "detach h self =
     (let h1 = (case parent h self of Ref p \<Rightarrow> removeChild h p self | _ \<Rightarrow> h)
      in h1\<lparr>parent := (parent h1)(self := Undefined)\<rparr>)"

text \<open>
  \<^verbatim>\<open>SVGTreeNode.root\<close>: \<^verbatim>\<open>while (root.parent !== null) root = root.parent\<close>. The loop
  variable can become \<^verbatim>\<open>undefined\<close>, and reading its parent is then a TypeError. On a
  cyclic parent chain the loop does not end, so the result is an option and \<^term>\<open>None\<close>
  is not returning.
\<close>

partial_function (option) root_from :: "heap \<Rightarrow> ref \<Rightarrow> (error + nat) option" where
  "root_from h r =
     (case r of
        Ref n \<Rightarrow> (if parent h n \<noteq> Null then root_from h (parent h n) else Some (Inr n))
      | _ \<Rightarrow> Some (Inl TypeError))"

definition root_node :: "heap \<Rightarrow> nat \<Rightarrow> (error + nat) option" where
  "root_node h self = root_from h (Ref self)"

text \<open>The parent relation of a store, and the invariant of the data model.\<close>

definition parent_rel :: "heap \<Rightarrow> (nat \<times> nat) set" where
  "parent_rel h = {(n, p). parent h n = Ref p}"


section \<open>Newick parser and serializer\<close>










text \<open>
  The serializer reads the data and the children below a node and nothing else, so it is
  a function of the finite tree of labels below the node.
\<close>

datatype tree = Node string "tree list"

fun recurrentNewick :: "tree \<Rightarrow> string"
  and children_newick :: "tree list \<Rightarrow> string" where
  "recurrentNewick (Node d cs) =
     (if length cs > 0 then ''('' @ children_newick cs @ '')'' else []) @ escape d"
| "children_newick [] = []"
| "children_newick (c # cs) =
     recurrentNewick c @ (if length cs > 0 then '','' else []) @ children_newick cs"

definition newick :: "tree \<Rightarrow> string" where
  "newick t = recurrentNewick t @ '';''"

text \<open>
  \<open>tree_at h n t\<close>: the node \<open>n\<close> of the store \<open>h\<close> carries the tree \<open>t\<close>: same label, same
  number of children, the children in the same order carrying the subtrees, and each child
  pointing back to \<open>n\<close> as its parent.
\<close>

inductive tree_at :: "heap \<Rightarrow> nat \<Rightarrow> tree \<Rightarrow> bool" where
  "data h n = Some d \<Longrightarrow> length (children h n) = length cs \<Longrightarrow>
   (\<And>i. i < length cs \<Longrightarrow>
      parent h (children h n ! i) = Ref n \<and> tree_at h (children h n ! i) (cs ! i)) \<Longrightarrow>
   tree_at h n (Node d cs)"

text \<open>A node \<open>0\<close> labelled \<open>R\<close> with the children \<open>1, 2, 3\<close>, labelled \<open>A, B, C\<close>.\<close>

definition abc_heap :: heap where
  "abc_heap =
     \<lparr>data = (\<lambda>_. None)(0 := Some ''R'', 1 := Some ''A'', 2 := Some ''B'', 3 := Some ''C''),
      children = (\<lambda>_. [])(0 := [1, 2, 3]),
      parent = (\<lambda>_. Null)(1 := Ref 0, 2 := Ref 0, 3 := Ref 0),
      next_id = 4\<rparr>"

text \<open>A chain: \<open>2\<close> is the only child of \<open>1\<close>, which is the only child of \<open>0\<close>.\<close>

definition chain_heap :: heap where
  "chain_heap =
     \<lparr>data = (\<lambda>_. Some []),
      children = (\<lambda>_. [])(0 := [1], 1 := [2]),
      parent = (\<lambda>_. Null)(1 := Ref 0, 2 := Ref 1),
      next_id = 3\<rparr>"

section \<open>Properties of the tokenizer\<close>

lemma unescape_lenient: "unescape symbol False = Inr symbol"
  by (simp add: unescape_def)


lemma tokenize_from_label:
  "tokenize_from (escape s @ rest) (acc @ [Str t]) = tokenize_from rest (acc @ [Str (t @ s)])"
proof (induction s arbitrary: t)
  case Nil
  show ?case by simp
next
  case (Cons c s)
  have step: "push_symbol (acc @ [Str t]) (Some c) = acc @ [Str (t @ [c])]"
    by (simp add: push_symbol_def)
  show ?case
  proof (cases "c \<in> set reserved")
    case True
    then show ?thesis
      using Cons.IH [of "t @ [c]"] by (simp add: unescape_lenient step reserved_def)
  next
    case False
    then show ?thesis
      using Cons.IH [of "t @ [c]"] by (auto simp add: step reserved_def)
  qed
qed

lemma tokenize_from_label_start:
  assumes "acc = [] \<or> (\<forall>t. last acc \<noteq> Str t)" and "s \<noteq> []"
  shows "tokenize_from (escape s @ rest) acc = tokenize_from rest (acc @ [Str s])"
proof -
  obtain c s' where s: "s = c # s'" using assms(2) by (cases s) auto
  have step: "push_symbol acc (Some c) = acc @ [Str [c]]"
    using assms(1) by (auto simp add: push_symbol_def split: token.splits)
  have "tokenize_from (escape s @ rest) acc = tokenize_from (escape s' @ rest) (acc @ [Str [c]])"
    by (cases "c \<in> set reserved")
       (auto simp add: s step unescape_lenient reserved_def)
  then show ?thesis
    using tokenize_from_label [of s' rest acc "[c]"] by (simp add: s)
qed

text \<open>
  C7, as the code has it: for a non-empty label \<open>s\<close>, tokenizing \<open>escape s\<close> followed by a
  semicolon gives the single label fragment \<open>s\<close> and then \<open>SEMICOLON\<close>; for the empty label
  there is no label fragment at all, only \<open>SEMICOLON\<close>.
\<close>

theorem tokenize_escape_roundtrip:
  "tokenize (escape s @ '';'') =
     Inr ((if s = [] then [] else [Str s]) @ [Num SEMICOLON])"
proof (cases "s = []")
  case True
  then show ?thesis by (simp add: tokenize_def)
next
  case False
  then show ?thesis
    using tokenize_from_label_start [of "[]" s "'';''"] by (simp add: tokenize_def)
qed

theorem tokenize_escape_roundtrip_witness:
  "tokenize (escape (''a(b'' @ [CHR 0x5C]) @ '';'') =
     Inr [Str (''a(b'' @ [CHR 0x5C]), Num SEMICOLON]"
  using tokenize_escape_roundtrip [of "''a(b'' @ [CHR 0x5C]"] by simp

text \<open>
  C7 as stated fails for the empty label: the token array is \<open>[SEMICOLON]\<close>, with no
  label fragment in it.
\<close>

theorem tokenize_escape_empty_counterexample:
  "tokenize (escape '''' @ '';'') = Inr [Num SEMICOLON] \<and>
   tokenize (escape '''' @ '';'') \<noteq> Inr [Str '''', Num SEMICOLON]"
  by (simp add: tokenize_def)




section \<open>Properties of the tree operations\<close>

lemma indexOf_notin: "x \<notin> set xs \<Longrightarrow> indexOf xs x = - 1"
  by (induction xs) (auto simp add: Let_def)

lemma indexOf_bounds: "x \<in> set xs \<Longrightarrow> 0 \<le> indexOf xs x \<and> indexOf xs x < int (length xs)"
  by (induction xs) (auto simp add: Let_def)

lemma indexOf_ge0_iff: "0 \<le> indexOf xs x \<longleftrightarrow> x \<in> set xs"
  by (cases "x \<in> set xs") (simp_all add: indexOf_notin indexOf_bounds)

lemma indexOf_remove1:
  "x \<in> set xs \<Longrightarrow>
   take (nat (indexOf xs x)) xs @ drop (nat (indexOf xs x) + 1) xs = remove1 x xs"
proof (induction xs)
  case Nil
  then show ?case by simp
next
  case (Cons y ys)
  show ?case
  proof (cases "y = x")
    case True
    then show ?thesis by simp
  next
    case False
    with Cons.prems have mem: "x \<in> set ys" by simp
    from indexOf_bounds [OF mem] have "nat (indexOf ys x + 1) = Suc (nat (indexOf ys x))"
      by (simp add: nat_add_distrib)
    with False mem Cons.IH indexOf_bounds [OF mem] show ?thesis by (simp add: Let_def)
  qed
qed

lemma removeChild_remove1:
  "removeChild h p c = h\<lparr>children := (children h)(p := remove1 c (children h p))\<rparr>"
proof (cases "c \<in> set (children h p)")
  case True
  then show ?thesis
    using indexOf_remove1 [OF True] indexOf_bounds [OF True] by (simp add: removeChild_def Let_def)
next
  case False
  then have "remove1 c (children h p) = children h p" by (simp add: remove1_idem)
  with False show ?thesis by (simp add: removeChild_def Let_def indexOf_notin)
qed

lemma indexOf_nth: "distinct xs \<Longrightarrow> i < length xs \<Longrightarrow> indexOf xs (xs ! i) = int i"
proof (induction xs arbitrary: i)
  case Nil
  then show ?case by simp
next
  case (Cons y ys)
  show ?case
  proof (cases i)
    case 0
    then show ?thesis by simp
  next
    case (Suc j)
    with Cons.prems have "ys ! j \<noteq> y" "indexOf ys (ys ! j) = int j" using Cons.IH [of j] by auto
    with Suc show ?thesis by (simp add: Let_def)
  qed
qed

lemma indexOf_append_notin:
  "x \<notin> set xs \<Longrightarrow> indexOf (xs @ x # ys) x = int (length xs)"
  by (induction xs) (auto simp add: Let_def)

text \<open>
  C8, as the code has it: when \<open>c\<close> is the child of \<open>n\<close> at index \<open>i\<close>, and \<open>i < p\<close>, and \<open>p\<close>
  is at most the number of children of \<open>n\<close>, then \<open>insert\<close> takes \<open>c\<close> out and splices
  it back at \<open>p - 1\<close>, which is then the index of \<open>c\<close>.
\<close>

theorem insert_self_move:
  assumes par: "parent h c = Ref n"
    and dist: "distinct (children h n)"
    and i: "i < length (children h n)" "children h n ! i = c"
    and p: "int i < p" "p \<le> int (length (children h n))"
  shows "\<exists>h'. insert_child h n c p = Inr h' \<and>
           children h' n = take (nat (p - 1)) (remove1 c (children h n)) @ [c] @
                           drop (nat (p - 1)) (remove1 c (children h n)) \<and>
           indexOf (children h' n) c = p - 1"
proof -
  let ?xs = "children h n" and ?ys = "remove1 c (children h n)"
  have mem: "c \<in> set ?xs" using i by auto
  have pos: "position h c = int i"
    using par dist i indexOf_nth [of ?xs i] by (simp add: position_def)
  have len: "int (length ?ys) = int (length ?xs) - 1"
    using mem by (simp add: length_remove1) (use i in linarith)
  have notin: "c \<notin> set ?ys" using dist mem by simp
  have splice: "splice_in ?ys (p - 1) c = take (nat (p - 1)) ?ys @ [c] @ drop (nat (p - 1)) ?ys"
    using p len by (simp add: splice_in_def Let_def min_def)
  have notin_take: "c \<notin> set (take (nat (p - 1)) ?ys)"
    using notin by (auto dest: in_set_takeD)
  have "length (take (nat (p - 1)) ?ys) = nat (p - 1)" using p len by simp
  then have idx: "indexOf (take (nat (p - 1)) ?ys @ [c] @ drop (nat (p - 1)) ?ys) c = p - 1"
    using indexOf_append_notin [OF notin_take, of "drop (nat (p - 1)) ?ys"] p by simp
  show ?thesis
    using par pos p splice idx
    by (simp add: insert_child_def leave_parent_def removeChild_remove1 Let_def)
qed


theorem insert_self_move_witness:
  "parent abc_heap 1 = Ref 0 \<and> distinct (children abc_heap 0) \<and>
   0 < length (children abc_heap 0) \<and> children abc_heap 0 ! 0 = 1 \<and> int 0 < 2 \<and>
   2 \<le> int (length (children abc_heap 0)) \<and>
   (\<exists>h'. insert_child abc_heap 0 1 2 = Inr h' \<and> children h' 0 = [2, 1, 3] \<and>
         indexOf (children h' 0) 1 = 1)"
  using insert_self_move [of abc_heap 1 0 0 2] by (simp add: abc_heap_def)

text \<open>
  C8 as stated fails when \<open>p\<close> is beyond the number of children: \<open>insert(A, 10)\<close> on the
  children \<open>[A, B, C]\<close> gives \<open>[B, C, A]\<close>, where \<open>A\<close> is at index 2 and not at 9.
\<close>

theorem insert_past_end_counterexample:
  "insert_child abc_heap 0 1 10 = Inr (abc_heap\<lparr>children := (children abc_heap)(0 := [2, 3, 1])\<rparr>) \<and>
   indexOf [2, 3, 1] 1 \<noteq> 10 - 1"
  by (simp add: insert_child_def leave_parent_def removeChild_remove1 position_def splice_in_def
      abc_heap_def Let_def fun_eq_iff)














lemma root_from_Null_end:
  assumes "root_from h r = Some y"
  shows "case y of Inl e \<Rightarrow> True | Inr x \<Rightarrow> parent h x = Null"
proof (rule root_from.raw_induct
    [where P = "\<lambda>h r y. case y of Inl e \<Rightarrow> True | Inr x \<Rightarrow> parent h x = Null", OF _ assms])
  fix f :: "heap \<Rightarrow> ref \<Rightarrow> (error + nat) option" and h r y
  assume IH: "\<And>h' r' y'. f h' r' = Some y' \<Longrightarrow>
                (case y' of Inl e \<Rightarrow> True | Inr x \<Rightarrow> parent h' x = Null)"
    and eq: "(case r of
        Ref n \<Rightarrow> if parent h n \<noteq> Null then f h (parent h n) else Some (Inr n)
      | _ \<Rightarrow> Some (Inl TypeError)) = Some y"
  show "case y of Inl e \<Rightarrow> True | Inr x \<Rightarrow> parent h x = Null"
  proof (cases r)
    case (Ref n)
    show ?thesis
    proof (cases "parent h n = Null")
      case True
      with eq Ref show ?thesis by auto
    next
      case False
      with eq Ref have "f h (parent h n) = Some y" by simp
      from IH [OF this] show ?thesis .
    qed
  qed (use eq in auto)
qed

lemma root_detached:
  assumes "(m, d) \<in> (parent_rel (detach h d))\<^sup>*"
  shows "root_node (detach h d) m = Some (Inl TypeError)"
  using assms
proof (induction rule: converse_rtrancl_induct)
  case base
  have "parent (detach h d) d = Undefined" by (simp add: detach_def Let_def)
  then show ?case by (simp add: root_node_def root_from.simps)
next
  case (step y z)
  then have "parent (detach h d) y = Ref z" by (simp add: parent_rel_def)
  with step.IH show ?case by (simp add: root_node_def root_from.simps [of _ "Ref y"])
qed

text \<open>
  C10: \<open>root\<close> returns a node only if that node's parent is \<open>null\<close>; the constructor sets
  the parent to \<open>null\<close> and \<open>detach\<close> sets it to \<open>undefined\<close>; and after \<open>detach\<close> on a node
  \<open>d\<close>, \<open>root\<close> called on \<open>d\<close> or on any node whose parent chain reaches \<open>d\<close> ends in a
  TypeError, and does not return \<open>d\<close>.
\<close>

theorem root_fails_after_detach:
  "(root_node h n = Some (Inr x) \<longrightarrow> parent h x = Null) \<and>
   parent (snd (new_node v h)) (fst (new_node v h)) = Null \<and>
   parent (detach h d) d = Undefined \<and>
   ((m, d) \<in> (parent_rel (detach h d))\<^sup>* \<longrightarrow>
      root_node (detach h d) m = Some (Inl TypeError) \<and>
      root_node (detach h d) m \<noteq> Some (Inr d))"
proof -
  have "root_node h n = Some (Inr x) \<Longrightarrow> parent h x = Null"
    using root_from_Null_end [of h "Ref n" "Inr x"] by (simp add: root_node_def)
  moreover have "parent (snd (new_node v h)) (fst (new_node v h)) = Null"
    by (simp add: new_node_def)
  moreover have "parent (detach h d) d = Undefined"
    by (simp add: detach_def Let_def)
  ultimately show ?thesis
    using root_detached [of m d h] by simp
qed

theorem root_fails_after_detach_witness:
  "root_node chain_heap 1 = Some (Inr 0) \<and> parent chain_heap 0 = Null \<and>
   (2, 1) \<in> (parent_rel (detach chain_heap 1))\<^sup>* \<and>
   root_node (detach chain_heap 1) 2 = Some (Inl TypeError)"
proof -
  have a: "root_node chain_heap 1 = Some (Inr 0)"
    by (simp add: root_node_def root_from.simps chain_heap_def)
  have "parent (detach chain_heap 1) 2 = Ref 1"
    by (simp add: detach_def removeChild_remove1 chain_heap_def Let_def)
  then have b: "(2, 1) \<in> (parent_rel (detach chain_heap 1))\<^sup>*"
    by (simp add: parent_rel_def r_into_rtrancl)
  show ?thesis
    using a b root_fails_after_detach [of chain_heap 1 0 None 1 2] by simp
qed

section \<open>Properties of the parser\<close>










end
